theory Spec2Isabelle
  imports Main "HOL-Library.Sublist" "HOL-Library.Multiset"
begin

section \<open>Data model of the push gateway (router/server.go)\<close>

text \<open>
  The \<open>Platform\<close> field of a notification is a Go \<open>int\<close>. The dispatch code only ever
  compares it with the three constants of package \<open>core\<close> in one \<open>switch\<close> without a
  default branch, so the model keeps one constructor per \<open>case\<close> and one for every
  other integer value.
\<close>

datatype platform = PlatFormIos | PlatFormAndroid | PlatFormHuawei | PlatFormOther

record PushNotification =
  ID :: string
  Tokens :: "string list"
  Platform :: platform
  Message :: string
  To :: string

record RequestPush =
  Notifications :: "PushNotification list"

text \<open>The fields of \<open>config.ConfYaml\<close> that \<open>server.go\<close> reads or writes in the push path.\<close>

record ConfYaml =
  Core_Sync :: bool
  Core_MaxNotification :: int
  Queue_Engine :: string
  Ios_Enabled :: bool
  Android_Enabled :: bool
  Huawei_Enabled :: bool
  Log_HideToken :: bool
  Log_Format :: string

datatype push_status = SucceededPush | FailedPush

text \<open>\<open>logx.InputLog\<close>, as \<open>markFailedNotification\<close> fills it.\<close>

record InputLog =
  in_ID :: string
  in_Status :: push_status
  in_Token :: string
  in_Message :: string
  in_Platform :: platform
  in_Error :: string
  in_HideToken :: bool
  in_Format :: string

text \<open>
  A Go \<open>error\<close> is modelled by its text: \<open>None\<close> is \<open>nil\<close>, \<open>Some m\<close> an error whose
  \<open>Error()\<close> is \<open>m\<close>.

  The collaborators of the dispatch code that live in other packages are parameters:
  \<open>notify.SendNotification\<close> (a send yields the \<open>Logs\<close> of its response together
  with its error), \<open>logx.GetLogPushEntry\<close> (the log entry type \<open>'e\<close> is whatever it
  builds) and \<open>os.Getenv\<close> (the empty string for a variable that is not set).
\<close>

record 'e env =
  SendNotification :: "PushNotification \<Rightarrow> ConfYaml \<Rightarrow> 'e list \<times> string option"
  GetLogPushEntry :: "InputLog \<Rightarrow> 'e"
  Getenv :: "string \<Rightarrow> string"

text \<open>
  Modelled from the spec: \<open>core.IsLocalQueue\<close> is not among the sources. The engine
  tag tells whether the queue is the in-process worker pool; that engine's tag is taken
  to be \<open>local\<close>.
\<close>

definition IsLocalQueue :: "string \<Rightarrow> bool" where
  "IsLocalQueue engine = (engine = ''local'')"

text \<open>\<open>strings.Contains\<close>: some suffix of \<open>s\<close> starts with \<open>sub\<close>.\<close>

fun strings_Contains :: "string \<Rightarrow> string \<Rightarrow> bool" where
  "strings_Contains [] sub = (sub = [])"
| "strings_Contains (c # s) sub = (if prefix sub (c # s) then True else strings_Contains s sub)"

section \<open>markFailedNotification\<close>

text \<open>
  The loop over \<open>notification.Tokens\<close> appends one entry per token to a slice that
  starts empty.
\<close>

definition failedInput :: "ConfYaml \<Rightarrow> PushNotification \<Rightarrow> string \<Rightarrow> string \<Rightarrow> InputLog" where
  "failedInput cfg notification reason token =
     \<lparr>in_ID = ID notification, in_Status = FailedPush, in_Token = token,
      in_Message = Message notification, in_Platform = Platform notification,
      in_Error = reason, in_HideToken = Log_HideToken cfg, in_Format = Log_Format cfg\<rparr>"

definition markFailedNotification ::
  "'e env \<Rightarrow> ConfYaml \<Rightarrow> PushNotification \<Rightarrow> string \<Rightarrow> 'e list" where
  "markFailedNotification env cfg notification reason =
     foldl (\<lambda>logs token. logs @ [GetLogPushEntry env (failedInput cfg notification reason token)])
       [] (Tokens notification)"

section \<open>handleNotification as a system of concurrent units\<close>

text \<open>
  \<open>handleNotification\<close> runs in the request's goroutine (the coordinator); every task
  closure the local queue accepts runs later on a worker goroutine and shares the
  variables \<open>logs\<close> and \<open>wg\<close> with it. The state holds those shared variables, the
  coordinator's position and the position of every accepted task.
\<close>

text \<open>Position of a task closure (lines 293-324).\<close>

datatype 'e task_pc =
    TQueued
    \<comment> \<open>accepted by \<open>QueueTask\<close>, not yet run\<close>
  | TAppend "'e list"
    \<comment> \<open>before \<open>logs = append(logs, resp.Logs...)\<close>, holding \<open>resp.Logs\<close>\<close>
  | TLoaded "'e list" "'e list"
    \<comment> \<open>has read \<open>logs\<close> (first argument), has not yet written the appended slice back\<close>
  | TDeferred "string option"
    \<comment> \<open>the body has returned this error; the deferred \<open>wg.Done()\<close> is next\<close>
  | TFinished "string option"
    \<comment> \<open>\<open>wg.Done()\<close> has run; the task returned this error to the queue\<close>
  | TPanicked
    \<comment> \<open>\<open>wg.Done()\<close> drove the counter below zero\<close>

text \<open>Position of the coordinator.\<close>

datatype 'e coord =
    CStart RequestPush
    \<comment> \<open>at the entry of \<open>handleNotification\<close>\<close>
  | CLoop "PushNotification list"
    \<comment> \<open>in the second loop, with the rest of \<open>newNotification\<close>; \<open>CLoop []\<close> is line 342\<close>
  | CReturned int "'e list"
    \<comment> \<open>returned \<open>count, logs\<close>\<close>
  | CPanicked
    \<comment> \<open>\<open>sync: negative WaitGroup counter\<close>\<close>

record 'e state =
  cfg :: ConfYaml
  coord :: "'e coord"
  count :: int
  wg :: int
  logs :: "'e list"
  tasks :: "(PushNotification \<times> 'e task_pc) list"
  enqueued :: "PushNotification list"
  reclaims :: "(string \<times> string) list"
  ctx_cancelled :: bool
  total_count :: int

text \<open>
  One scheduling decision: the coordinator runs its next statement (the flag is the
  queue's answer if that statement is a submission: \<open>True\<close> accepted, \<open>False\<close> an
  error), the worker of task \<open>i\<close> runs its next statement, or the request's context is
  done and the watcher goroutine of \<open>pushHandler\<close> runs.
\<close>

datatype event = Coord bool | Worker nat | ClientGone

text \<open>The first loop (lines 266-283): the \<open>switch\<close> has no default branch.\<close>

definition platform_enabled :: "ConfYaml \<Rightarrow> PushNotification \<Rightarrow> bool" where
  "platform_enabled c notification =
     (case Platform notification of
        PlatFormIos \<Rightarrow> Ios_Enabled c
      | PlatFormAndroid \<Rightarrow> Android_Enabled c
      | PlatFormHuawei \<Rightarrow> Huawei_Enabled c
      | PlatFormOther \<Rightarrow> True)"

definition newNotification :: "ConfYaml \<Rightarrow> RequestPush \<Rightarrow> PushNotification list" where
  "newNotification c req =
     foldl (\<lambda>acc notification. if platform_enabled c notification then acc @ [notification] else acc)
       [] (Notifications req)"

text \<open>
  Lines 335-339: what one notification adds to \<open>count\<close>. \<open>count\<close> is a Go \<open>int\<close>
  (64 bits); it sums the lengths of slices held in memory and so stays far below the
  bound, and the model counts in unbounded integers.
\<close>

definition count_of :: "PushNotification \<Rightarrow> int" where
  "count_of notification =
     int (length (Tokens notification)) + (if To notification = [] then 0 else 1)"

text \<open>Lines 262-264.\<close>

definition downgrade :: "ConfYaml \<Rightarrow> ConfYaml" where
  "downgrade c =
     (if Core_Sync c \<and> \<not> IsLocalQueue (Queue_Engine c) then c\<lparr>Core_Sync := False\<rparr> else c)"

text \<open>
  Lines 308-313: the base URL of the cleaner service, read from the environment.
\<close>

definition cleanerApiUrl :: "'e env \<Rightarrow> string" where
  "cleanerApiUrl env =
     (if Getenv env ''CLEANER_API_URL'' = [] then ''https://cleaner.tolki.app''
      else Getenv env ''CLEANER_API_URL'')"

text \<open>
  One iteration of the second loop (lines 286-340) for \<open>notification\<close>, \<open>rest\<close> being
  what is left of \<open>newNotification\<close>. \<open>wg.Done()\<close> is \<open>wg.Add(-1)\<close>, which panics when
  the counter becomes negative.
\<close>

definition iteration ::
  "'e env \<Rightarrow> bool \<Rightarrow> PushNotification \<Rightarrow> PushNotification list \<Rightarrow> 'e state \<Rightarrow> 'e state" where
  "iteration env accepted notification rest s =
     (let s1 = (if Core_Sync (cfg s) then s\<lparr>wg := wg s + 1\<rparr> else s);
          counted = (\<lambda>t. t\<lparr>count := count t + count_of notification, coord := CLoop rest\<rparr>)
      in if IsLocalQueue (Queue_Engine (cfg s)) \<and> Core_Sync (cfg s) then
           (if accepted then counted (s1\<lparr>tasks := tasks s1 @ [(notification, TQueued)]\<rparr>)
            else counted s1)
         else if accepted then counted (s1\<lparr>enqueued := enqueued s1 @ [notification]\<rparr>)
         else
           (let s2 = s1\<lparr>logs := logs s1 @
                         markFailedNotification env (cfg s) notification ''max capacity reached''\<rparr>;
                s3 = s2\<lparr>wg := wg s2 - 1\<rparr>
            in if wg s3 < 0 then s3\<lparr>coord := CPanicked\<rparr> else counted s3))"

text \<open>
  The coordinator's next statement. At line 342 it waits (\<open>None\<close>: not enabled) while
  \<open>cfg.Core.Sync\<close> holds and the counter is not zero; its \<open>context.Context\<close> parameter
  is named \<open>_\<close> and never read.
\<close>

definition coord_step :: "'e env \<Rightarrow> bool \<Rightarrow> 'e state \<Rightarrow> 'e state option" where
  "coord_step env accepted s =
     (case coord s of
        CStart req \<Rightarrow>
          Some (s\<lparr>cfg := downgrade (cfg s),
                  coord := CLoop (newNotification (downgrade (cfg s)) req),
                  count := 0, wg := 0, logs := []\<rparr>)
      | CLoop [] \<Rightarrow>
          (if Core_Sync (cfg s) \<and> wg s \<noteq> 0 then None
           else Some (s\<lparr>coord := CReturned (count s) (logs s),
                        total_count := total_count s + count s\<rparr>))
      | CLoop (notification # rest) \<Rightarrow> Some (iteration env accepted notification rest s)
      | CReturned c l \<Rightarrow> None
      | CPanicked \<Rightarrow> None)"

text \<open>
  The next statement of a task closure for \<open>msg\<close> at position \<open>pc\<close>: the new position
  and the new shared state. A finished task has no next statement.
\<close>

definition task_step ::
  "'e env \<Rightarrow> PushNotification \<Rightarrow> 'e task_pc \<Rightarrow> 'e state \<Rightarrow> ('e task_pc \<times> 'e state) option" where
  "task_step env msg pc s =
     (case pc of
        TQueued \<Rightarrow>
          (case SendNotification env msg (cfg s) of
             (resp_Logs, None) \<Rightarrow> Some (TAppend resp_Logs, s)
           | (resp_Logs, Some err) \<Rightarrow>
               if strings_Contains err ''Unregistered'' then
                 Some (TAppend resp_Logs,
                       s\<lparr>reclaims := reclaims s @
                            map (\<lambda>token. (token, cleanerApiUrl env)) (Tokens msg)\<rparr>)
               else Some (TDeferred (Some err), s))
      | TAppend resp_Logs \<Rightarrow> Some (TLoaded (logs s) resp_Logs, s)
      | TLoaded loaded resp_Logs \<Rightarrow> Some (TDeferred None, s\<lparr>logs := loaded @ resp_Logs\<rparr>)
      | TDeferred r \<Rightarrow>
          (if wg s - 1 < 0 then Some (TPanicked, s\<lparr>wg := wg s - 1\<rparr>)
           else Some (TFinished r, s\<lparr>wg := wg s - 1\<rparr>))
      | TFinished r \<Rightarrow> None
      | TPanicked \<Rightarrow> None)"

text \<open>
  The watcher of \<open>pushHandler\<close> (lines 88-99): once the request's context is done it
  cancels the context that was handed to \<open>handleNotification\<close>, if \<open>cfg.Core.Sync\<close>.
\<close>

definition watcher_step :: "'e state \<Rightarrow> 'e state" where
  "watcher_step s = (if Core_Sync (cfg s) then s\<lparr>ctx_cancelled := True\<rparr> else s)"

definition step :: "'e env \<Rightarrow> event \<Rightarrow> 'e state \<Rightarrow> 'e state option" where
  "step env ev s =
     (case ev of
        Coord accepted \<Rightarrow> coord_step env accepted s
      | Worker i \<Rightarrow>
          (if i < length (tasks s) then
             (case task_step env (fst (tasks s ! i)) (snd (tasks s ! i)) s of
                None \<Rightarrow> None
              | Some (pc', s') \<Rightarrow> Some (s'\<lparr>tasks := (tasks s')[i := (fst (tasks s ! i), pc')]\<rparr>))
           else None)
      | ClientGone \<Rightarrow> Some (watcher_step s))"

text \<open>A schedule is run from left to right; it is refused at the first event that is not enabled.\<close>

fun run :: "'e env \<Rightarrow> event list \<Rightarrow> 'e state \<Rightarrow> 'e state option" where
  "run env [] s = Some s"
| "run env (ev # evs) s = (case step env ev s of None \<Rightarrow> None | Some s' \<Rightarrow> run env evs s')"

text \<open>
  The state in which \<open>pushHandler\<close> calls \<open>handleNotification(ctx, cfg, form, q)\<close>: the
  context is fresh, nothing has been counted by the stats sink in this call.
\<close>

definition init :: "ConfYaml \<Rightarrow> RequestPush \<Rightarrow> 'e state" where
  "init c req =
     \<lparr>cfg = c, coord = CStart req, count = 0, wg = 0, logs = [], tasks = [], enqueued = [],
      reclaims = [], ctx_cancelled = False, total_count = 0\<rparr>"

section \<open>deleteUnregisteredToken\<close>

text \<open>
  The function returns nothing; what it does is the sequence of its effects: requests
  handed to \<open>client.Do\<close>, sleeps (in seconds) and lines of the error log. The network
  is a parameter: \<open>http.NewRequest\<close> refuses a URL it cannot parse (\<open>url_ok\<close>), and
  \<open>do k\<close> is the outcome of the call of \<open>client.Do\<close> made in the iteration with
  \<open>attempts = k\<close>, an error or the status code of the response.
\<close>

record http_request =
  Method :: string
  URL :: string

datatype http_outcome = NetError string | Response int

datatype effect = Do http_request | Sleep nat | LogError

definition StatusOK :: int where
  "StatusOK = 200"

definition NewRequest :: "(string \<Rightarrow> bool) \<Rightarrow> string \<Rightarrow> string \<Rightarrow> http_request option" where
  "NewRequest url_ok method url = (if url_ok url then Some \<lparr>Method = method, URL = url\<rparr> else None)"

function attempts_loop :: "(nat \<Rightarrow> http_outcome) \<Rightarrow> http_request \<Rightarrow> nat \<Rightarrow> effect list" where
  "attempts_loop do req attempts =
     (if attempts < 3 then
        (case do attempts of
           NetError err \<Rightarrow> Do req # LogError # Sleep 2 # attempts_loop do req (attempts + 1)
         | Response StatusCode \<Rightarrow>
             if StatusCode = StatusOK then [Do req]
             else Do req # Sleep 2 # attempts_loop do req (attempts + 1))
      else [])"
  by pat_completeness auto
termination
  by (relation "measure (\<lambda>(do, req, attempts). 3 - attempts)") auto

definition deleteUnregisteredToken ::
  "(string \<Rightarrow> bool) \<Rightarrow> (nat \<Rightarrow> http_outcome) \<Rightarrow> string \<Rightarrow> string \<Rightarrow> effect list" where
  "deleteUnregisteredToken url_ok do token cleanerServiceURL =
     (case NewRequest url_ok ''DELETE'' (cleanerServiceURL @ ''/'' @ token) of
        None \<Rightarrow> [LogError]
      | Some req \<Rightarrow> attempts_loop do req 0)"

text \<open>The requests among the effects, in order.\<close>

definition requests :: "effect list \<Rightarrow> http_request list" where
  "requests effects = concat (map (\<lambda>e. case e of Do req \<Rightarrow> [req] | Sleep n \<Rightarrow> [] | LogError \<Rightarrow> []) effects)"

section \<open>Invariants of the dispatch\<close>

text \<open>The coordinator has executed lines 262-285.\<close>

definition started :: "'e state \<Rightarrow> bool" where
  "started s = (case coord s of CStart req \<Rightarrow> False | CLoop rest \<Rightarrow> True
                | CReturned c l \<Rightarrow> True | CPanicked \<Rightarrow> True)"

text \<open>A task that has not yet executed its deferred \<open>wg.Done()\<close>.\<close>

definition unreleased :: "PushNotification \<times> 'e task_pc \<Rightarrow> bool" where
  "unreleased t = (case snd t of TFinished r \<Rightarrow> False | TPanicked \<Rightarrow> False
                   | TQueued \<Rightarrow> True | TAppend ls \<Rightarrow> True | TLoaded l ls \<Rightarrow> True
                   | TDeferred r \<Rightarrow> True)"

definition panicked :: "PushNotification \<times> 'e task_pc \<Rightarrow> bool" where
  "panicked t = (case snd t of TPanicked \<Rightarrow> True | TQueued \<Rightarrow> False | TAppend ls \<Rightarrow> False
                 | TLoaded l ls \<Rightarrow> False | TDeferred r \<Rightarrow> False | TFinished r \<Rightarrow> False)"

text \<open>
  Tasks exist only after the start and in sync mode, and then the barrier's counter
  covers every task that has not released its unit.
\<close>

definition barrier_inv :: "'e state \<Rightarrow> bool" where
  "barrier_inv s =
     (if started s \<and> Core_Sync (cfg s) then
        int (length (filter unreleased (tasks s))) \<le> wg s \<and> filter panicked (tasks s) = []
      else tasks s = [])"

text \<open>The attempted volume of a list of notifications.\<close>

definition volume :: "PushNotification list \<Rightarrow> int" where
  "volume ns = sum_list (map count_of ns)"

definition count_inv :: "int \<Rightarrow> 'e state \<Rightarrow> bool" where
  "count_inv v s =
     (case coord s of
        CStart req \<Rightarrow> volume (newNotification (cfg s) req) = v
      | CLoop rest \<Rightarrow> count s + volume rest = v
      | CReturned c l \<Rightarrow> c = v
      | CPanicked \<Rightarrow> True)"

text \<open>
  The claim's notion, to compare the first loop with: a notification is on a disabled
  platform if its platform is iOS, Android or Huawei and the \<open>Enabled\<close> flag of that
  platform is off in the configuration.
\<close>

definition on_disabled_platform :: "ConfYaml \<Rightarrow> PushNotification \<Rightarrow> bool" where
  "on_disabled_platform c notification =
     (if Platform notification = PlatFormIos then \<not> Ios_Enabled c
      else if Platform notification = PlatFormAndroid then \<not> Android_Enabled c
      else if Platform notification = PlatFormHuawei then \<not> Huawei_Enabled c
      else False)"

text \<open>
  The aggregated logs. A task past the send holds the \<open>Logs\<close> of its response; once
  its body has returned \<open>nil\<close> it has appended them.
\<close>

definition holds_response :: "'e env \<Rightarrow> ConfYaml \<Rightarrow> PushNotification \<times> 'e task_pc \<Rightarrow> bool" where
  "holds_response env c t =
     (case snd t of
        TAppend ls \<Rightarrow> ls = fst (SendNotification env (fst t) c)
      | TLoaded l ls \<Rightarrow> ls = fst (SendNotification env (fst t) c)
      | TQueued \<Rightarrow> True | TDeferred r \<Rightarrow> True | TFinished r \<Rightarrow> True | TPanicked \<Rightarrow> True)"

definition appended :: "'e env \<Rightarrow> ConfYaml \<Rightarrow> PushNotification \<times> 'e task_pc \<Rightarrow> 'e list" where
  "appended env c t =
     (case snd t of
        TDeferred r \<Rightarrow> (if r = None then fst (SendNotification env (fst t) c) else [])
      | TFinished r \<Rightarrow> (if r = None then fst (SendNotification env (fst t) c) else [])
      | TQueued \<Rightarrow> [] | TAppend ls \<Rightarrow> [] | TLoaded l ls \<Rightarrow> [] | TPanicked \<Rightarrow> [])"

text \<open>
  No task holds a stale copy of \<open>logs\<close>: whatever a task has read is still the
  current value. A schedule is serial if that is so in every state it passes
  through, that is, if no task writes \<open>logs\<close> between the read and the write of
  another task's append.
\<close>

definition fresh :: "'e state \<Rightarrow> bool" where
  "fresh s =
     list_all (\<lambda>t. case snd t of TLoaded l ls \<Rightarrow> l = logs s | TQueued \<Rightarrow> True | TAppend ls \<Rightarrow> True
                  | TDeferred r \<Rightarrow> True | TFinished r \<Rightarrow> True | TPanicked \<Rightarrow> True) (tasks s)"

fun serial :: "'e env \<Rightarrow> event list \<Rightarrow> 'e state \<Rightarrow> bool" where
  "serial env [] s = fresh s"
| "serial env (ev # evs) s =
     (fresh s \<and> (case step env ev s of None \<Rightarrow> False | Some s' \<Rightarrow> serial env evs s'))"

text \<open>
  In sync mode the engine is local and the logs hold, up to order, what the tasks
  have appended; with sync mode off the coordinator has an empty log and a zero
  counter as long as it has not panicked.
\<close>

definition logs_inv :: "'e env \<Rightarrow> 'e state \<Rightarrow> bool" where
  "logs_inv env s =
     (if \<not> started s then True
      else if Core_Sync (cfg s) then
        IsLocalQueue (Queue_Engine (cfg s)) \<and>
        list_all (holds_response env (cfg s)) (tasks s) \<and>
        mset (logs s) = mset (concat (map (appended env (cfg s)) (tasks s))) \<and>
        (case coord s of CReturned n l \<Rightarrow> l = logs s \<and> filter unreleased (tasks s) = []
         | CStart r \<Rightarrow> True | CLoop ns \<Rightarrow> True | CPanicked \<Rightarrow> True)
      else
        (case coord s of CReturned n l \<Rightarrow> l = [] \<and> logs s = []
         | CLoop ns \<Rightarrow> wg s = 0 \<and> logs s = []
         | CStart r \<Rightarrow> True | CPanicked \<Rightarrow> True))"

text \<open>
  The coordinator stands at line 342 in sync mode with units outstanding: it cannot
  take a step.
\<close>

definition blocked :: "'e state \<Rightarrow> bool" where
  "blocked s = (coord s = CLoop [] \<and> Core_Sync (cfg s) \<and> wg s \<noteq> 0)"

text \<open>A scheduling decision that is not a worker's: the watcher or the coordinator.\<close>

definition outside_worker :: "bool option \<Rightarrow> event" where
  "outside_worker choice = (case choice of None \<Rightarrow> ClientGone | Some accepted \<Rightarrow> Coord accepted)"

section \<open>Concrete scenarios\<close>

text \<open>
  A backend that always succeeds with one entry (the token) per token, a configuration
  with sync mode on the local engine and Android disabled, and a batch of two iOS
  notifications around one Android notification.
\<close>

definition cfg_sync :: ConfYaml where
  "cfg_sync = \<lparr>Core_Sync = True, Core_MaxNotification = 100, Queue_Engine = ''local'',
     Ios_Enabled = True, Android_Enabled = False, Huawei_Enabled = True,
     Log_HideToken = False, Log_Format = ''json''\<rparr>"

definition notif :: "string list \<Rightarrow> platform \<Rightarrow> string \<Rightarrow> PushNotification" where
  "notif ts p topic = \<lparr>ID = ''n'', Tokens = ts, Platform = p, Message = ''hello'', To = topic\<rparr>"

definition env_ok :: "string env" where
  "env_ok = \<lparr>SendNotification = (\<lambda>msg c. (Tokens msg, None)), GetLogPushEntry = in_Token,
     Getenv = (\<lambda>k. [])\<rparr>"

definition req_two :: RequestPush where
  "req_two = \<lparr>Notifications = [notif [''a'', ''b''] PlatFormIos [], notif [''x''] PlatFormAndroid [],
      notif [''c''] PlatFormIos []]\<rparr>"

definition sched_two :: "event list" where
  "sched_two = [Coord True, Coord True, Coord True, Worker 0, Worker 0, Worker 0, Worker 0,
     Worker 1, Worker 1, Worker 1, Worker 1, Coord True]"

text \<open>
  The same configuration on a queue engine that is not local, and with sync mode off;
  batches of one notification, without and with a topic; backends that fail every send
  with an unregistered-token error and with another error.
\<close>

definition cfg_remote :: ConfYaml where
  "cfg_remote = \<lparr>Core_Sync = True, Core_MaxNotification = 100, Queue_Engine = ''nsq'',
     Ios_Enabled = True, Android_Enabled = False, Huawei_Enabled = True,
     Log_HideToken = False, Log_Format = ''json''\<rparr>"

definition cfg_async :: ConfYaml where
  "cfg_async = cfg_sync\<lparr>Core_Sync := False\<rparr>"

definition req_one :: RequestPush where
  "req_one = \<lparr>Notifications = [notif [''a''] PlatFormIos []]\<rparr>"

definition req_topic :: RequestPush where
  "req_topic = \<lparr>Notifications = [notif [''a''] PlatFormIos ''news'']\<rparr>"

definition env_unreg :: "string env" where
  "env_unreg = env_ok\<lparr>SendNotification := (\<lambda>msg c. (Tokens msg, Some ''Unregistered: token-x''))\<rparr>"

definition env_timeout :: "string env" where
  "env_timeout = env_ok\<lparr>SendNotification := (\<lambda>msg c. (Tokens msg, Some ''timeout''))\<rparr>"

text \<open>
  Android enabled instead of iOS; every platform disabled, with sync mode off; a
  notification whose platform is none of the three constants.
\<close>

definition cfg_android :: ConfYaml where
  "cfg_android = cfg_sync\<lparr>Ios_Enabled := False, Android_Enabled := True\<rparr>"

definition cfg_none :: ConfYaml where
  "cfg_none = \<lparr>Core_Sync = False, Core_MaxNotification = 100, Queue_Engine = ''local'',
     Ios_Enabled = False, Android_Enabled = False, Huawei_Enabled = False,
     Log_HideToken = False, Log_Format = ''json''\<rparr>"

definition req_other :: RequestPush where
  "req_other = \<lparr>Notifications = [notif [''a''] PlatFormOther []]\<rparr>"

text \<open>Two tasks whose appends overlap: both read \<open>logs\<close> before either writes it back.\<close>

definition req_ab :: RequestPush where
  "req_ab = \<lparr>Notifications = [notif [''a''] PlatFormIos [], notif [''b''] PlatFormIos []]\<rparr>"

definition sched_race :: "event list" where
  "sched_race = [Coord True, Coord True, Coord True, Worker 0, Worker 1,
     Worker 0, Worker 1, Worker 0, Worker 1, Worker 0, Worker 1, Coord True]"

text \<open>
  A cleaner service that never answers with the success status, and one that does at
  the second attempt.
\<close>

definition always_down :: "nat \<Rightarrow> http_outcome" where
  "always_down k = (if k = 1 then Response 503 else NetError ''connection refused'')"

definition up_at_second :: "nat \<Rightarrow> http_outcome" where
  "up_at_second k = (if k = 0 then Response 500 else Response 200)"

text \<open>A cleaner service that answers every request with 204 No Content.\<close>

definition always_204 :: "nat \<Rightarrow> http_outcome" where
  "always_204 k = Response 204"

section \<open>Basic facts about the loops\<close>

lemmas model_defs = step_def coord_step_def iteration_def task_step_def watcher_step_def init_def
  downgrade_def IsLocalQueue_def newNotification_def platform_enabled_def count_of_def
  markFailedNotification_def failedInput_def cleanerApiUrl_def Let_def

lemmas scenario_defs = cfg_sync_def notif_def env_ok_def req_two_def sched_two_def

lemmas scenario2_defs = cfg_async_def req_one_def req_topic_def env_unreg_def env_timeout_def

lemma foldl_append_map: "foldl (\<lambda>acc x. acc @ [f x]) a xs = a @ map f xs"
  by (induction xs arbitrary: a) simp_all

lemma markFailedNotification_map:
  "markFailedNotification env c n reason =
     map (\<lambda>token. GetLogPushEntry env (failedInput c n reason token)) (Tokens n)"
  by (simp add: markFailedNotification_def foldl_append_map)

lemma foldl_filter_append: "foldl (\<lambda>acc x. if P x then acc @ [x] else acc) a xs = a @ filter P xs"
  by (induction xs arbitrary: a) simp_all

lemma newNotification_filter:
  "newNotification c req = filter (platform_enabled c) (Notifications req)"
  by (simp add: newNotification_def foldl_filter_append)

lemma platform_enabled_iff: "platform_enabled c n = (\<not> on_disabled_platform c n)"
  by (simp add: platform_enabled_def on_disabled_platform_def split: platform.splits)

lemma platform_enabled_downgrade [simp]: "platform_enabled (downgrade c) = platform_enabled c"
  by (auto simp: platform_enabled_def downgrade_def fun_eq_iff split: platform.splits)

lemma newNotification_downgrade [simp]: "newNotification (downgrade c) req = newNotification c req"
  by (simp add: newNotification_filter)

declare attempts_loop.simps [simp del]

lemma attempts_loop_done: "3 \<le> k \<Longrightarrow> attempts_loop do req k = []"
  by (subst attempts_loop.simps) simp

lemma attempts_loop_next:
  "k < 3 \<Longrightarrow> attempts_loop do req k =
     (case do k of
        NetError err \<Rightarrow> [Do req, LogError, Sleep 2]
      | Response StatusCode \<Rightarrow> if StatusCode = 200 then [Do req] else [Do req, Sleep 2]) @
     (if do k = Response 200 then [] else attempts_loop do req (Suc k))"
  by (subst attempts_loop.simps)
     (simp add: StatusOK_def split: http_outcome.splits)

lemma attempts_loop_unrolled:
  "attempts_loop do req 0 =
     (let attempt = (\<lambda>k. case do k of
                          NetError err \<Rightarrow> [Do req, LogError, Sleep 2]
                        | Response StatusCode \<Rightarrow>
                            if StatusCode = 200 then [Do req] else [Do req, Sleep 2])
      in attempt 0 @
         (if do 0 = Response 200 then []
          else attempt 1 @ (if do 1 = Response 200 then [] else attempt 2)))"
proof -
  have "attempts_loop do req (Suc (Suc (Suc 0))) = []"
    by (rule attempts_loop_done) simp
  moreover note attempts_loop_next [of "Suc (Suc 0)" "do" req]
    attempts_loop_next [of "Suc 0" "do" req] attempts_loop_next [of 0 "do" req]
  ultimately show ?thesis
    by (simp add: Let_def numeral_2_eq_2)
qed

subsection \<open>Frame lemmas\<close>

lemma task_step_frame:
  "task_step env msg pc s = Some (pc', s') \<Longrightarrow>
     cfg s' = cfg s \<and> coord s' = coord s \<and> count s' = count s \<and> tasks s' = tasks s \<and>
     enqueued s' = enqueued s \<and> ctx_cancelled s' = ctx_cancelled s \<and>
     total_count s' = total_count s"
  by (auto simp: task_step_def split: task_pc.splits prod.splits option.splits if_splits)

lemma worker_frame:
  "step env (Worker i) s = Some s' \<Longrightarrow>
     cfg s' = cfg s \<and> coord s' = coord s \<and> count s' = count s \<and>
     enqueued s' = enqueued s \<and> ctx_cancelled s' = ctx_cancelled s \<and>
     total_count s' = total_count s \<and> length (tasks s') = length (tasks s) \<and> i < length (tasks s)"
  by (auto simp: step_def split: if_splits option.splits prod.splits dest!: task_step_frame)

lemma watcher_frame:
  "step env ClientGone s = Some s' \<Longrightarrow>
     cfg s' = cfg s \<and> coord s' = coord s \<and> count s' = count s \<and> wg s' = wg s \<and>
     logs s' = logs s \<and> tasks s' = tasks s \<and> enqueued s' = enqueued s \<and>
     reclaims s' = reclaims s \<and> total_count s' = total_count s"
  by (auto simp: step_def watcher_step_def split: if_splits)

lemma iteration_cfg: "cfg (iteration env a n rest s) = cfg s"
  by (simp add: iteration_def Let_def)

lemma iteration_started: "started (iteration env a n rest s)"
  by (simp add: iteration_def Let_def started_def)

lemma coord_step_started:
  assumes "coord_step env a s = Some s'"
  shows "started s'"
proof (cases "coord s")
  case (CStart req)
  with assms show ?thesis by (auto simp: coord_step_def started_def)
next
  case (CLoop rest)
  with assms show ?thesis
    by (cases rest) (auto simp: coord_step_def iteration_started started_def [of "s\<lparr>coord := c, total_count := t\<rparr>" for c t] split: if_splits)
next
  case (CReturned c l)
  with assms show ?thesis by (simp add: coord_step_def)
next
  case CPanicked
  with assms show ?thesis by (simp add: coord_step_def)
qed

lemma coord_step_cfg:
  "coord_step env a s = Some s' \<Longrightarrow> cfg s' = (if started s then cfg s else downgrade (cfg s))"
  by (auto simp: coord_step_def started_def iteration_cfg split: coord.splits list.splits if_splits)

lemma step_cfg:
  "step env ev s = Some s' \<Longrightarrow>
     (started s \<longrightarrow> started s' \<and> cfg s' = cfg s) \<and>
     (\<not> started s \<longrightarrow> (if started s' then cfg s' = downgrade (cfg s) else cfg s' = cfg s))"
proof (cases ev)
  case (Coord a)
  assume "step env ev s = Some s'"
  with Coord have c: "coord_step env a s = Some s'" by (simp add: step_def)
  show ?thesis using coord_step_started [OF c] coord_step_cfg [OF c] by simp
next
  case (Worker i)
  assume "step env ev s = Some s'"
  with Worker show ?thesis by (auto dest!: worker_frame simp: started_def)
next
  case ClientGone
  assume "step env ev s = Some s'"
  with ClientGone show ?thesis by (auto dest!: watcher_frame simp: started_def)
qed

lemma downgrade_idem [simp]: "downgrade (downgrade c) = downgrade c"
  by (simp add: downgrade_def)

lemma run_cfg:
  "run env sched s = Some s' \<Longrightarrow>
     (started s \<longrightarrow> started s' \<and> cfg s' = cfg s) \<and>
     (\<not> started s \<longrightarrow> (if started s' then cfg s' = downgrade (cfg s) else cfg s' = cfg s))"
proof (induction sched arbitrary: s)
  case Nil
  then show ?case by simp
next
  case (Cons ev evs)
  then obtain t where t: "step env ev s = Some t" and r: "run env evs t = Some s'"
    by (auto split: option.splits)
  show ?case using step_cfg [OF t] Cons.IH [OF r] by (auto split: if_splits)
qed


subsection \<open>The count\<close>

lemma iteration_count:
  "coord (iteration env a n rest s) = CPanicked \<or>
   (coord (iteration env a n rest s) = CLoop rest \<and>
    count (iteration env a n rest s) = count s + count_of n)"
  by (simp add: iteration_def Let_def)

lemma volume_Cons [simp]: "volume (n # ns) = count_of n + volume ns"
  by (simp add: volume_def)

lemma volume_Nil [simp]: "volume [] = 0"
  by (simp add: volume_def)

lemma coord_step_count_inv:
  assumes "coord_step env a s = Some s'" and "count_inv v s"
  shows "count_inv v s'"
proof (cases "coord s")
  case (CStart req)
  with assms show ?thesis by (auto simp: coord_step_def count_inv_def)
next
  case (CLoop rest)
  show ?thesis
  proof (cases rest)
    case Nil
    with CLoop assms show ?thesis
      by (auto simp: coord_step_def count_inv_def split: if_splits)
  next
    case (Cons n ns)
    with CLoop assms have s': "s' = iteration env a n ns s" and v: "count s + (count_of n + volume ns) = v"
      by (auto simp: coord_step_def count_inv_def)
    from iteration_count [of env a n ns s] show ?thesis
      unfolding s' using v by (auto simp: count_inv_def)
  qed
next
  case (CReturned c l)
  with assms show ?thesis by (simp add: coord_step_def)
next
  case CPanicked
  with assms show ?thesis by (simp add: coord_step_def)
qed

lemma step_count_inv:
  assumes "step env ev s = Some s'" and "count_inv v s"
  shows "count_inv v s'"
proof (cases ev)
  case (Coord a)
  with assms show ?thesis by (auto simp: step_def intro: coord_step_count_inv)
next
  case (Worker i)
  with assms(1) have "cfg s' = cfg s \<and> coord s' = coord s \<and> count s' = count s"
    by (auto dest!: worker_frame)
  with assms(2) show ?thesis by (auto simp: count_inv_def split: coord.splits)
next
  case ClientGone
  with assms(1) have "cfg s' = cfg s \<and> coord s' = coord s \<and> count s' = count s"
    by (auto dest!: watcher_frame)
  with assms(2) show ?thesis by (auto simp: count_inv_def split: coord.splits)
qed

lemma run_count_inv:
  "run env sched s = Some s' \<Longrightarrow> count_inv v s \<Longrightarrow> count_inv v s'"
proof (induction sched arbitrary: s)
  case Nil
  then show ?case by simp
next
  case (Cons ev evs)
  then obtain t where t: "step env ev s = Some t" and r: "run env evs t = Some s'"
    by (auto split: option.splits)
  from step_count_inv [OF t Cons.prems(2)] show ?case by (rule Cons.IH [OF r])
qed

lemma init_count_inv: "count_inv (volume (newNotification c req)) (init c req)"
  by (simp add: count_inv_def init_def)

subsection \<open>The barrier\<close>

lemma filter_update_length:
  "i < length xs \<Longrightarrow>
     int (length (filter P (xs[i := y]))) =
       int (length (filter P xs)) - (if P (xs ! i) then 1 else 0) + (if P y then 1 else 0)"
proof (induction xs arbitrary: i)
  case Nil
  then show ?case by simp
next
  case (Cons x xs)
  show ?case
  proof (cases i)
    case 0
    then show ?thesis by simp
  next
    case (Suc j)
    with Cons.prems have "j < length xs" by simp
    from Cons.IH [OF this] Suc show ?thesis by (auto split: if_splits)
  qed
qed

lemma filter_update_empty:
  "filter P xs = [] \<Longrightarrow> \<not> P y \<Longrightarrow> filter P (xs[i := y]) = []"
  by (auto simp: filter_empty_conv dest!: set_update_subset_insert [THEN subsetD])

lemma task_step_wg:
  "task_step env msg pc s = Some (pc', s') \<Longrightarrow>
     (case pc of
        TDeferred r \<Rightarrow> wg s' = wg s - 1 \<and> pc' = (if wg s - 1 < 0 then TPanicked else TFinished r)
      | _ \<Rightarrow> wg s' = wg s \<and> unreleased (msg, pc') \<and> \<not> panicked (msg, pc'))"
  by (auto simp: task_step_def unreleased_def panicked_def
      split: task_pc.splits prod.splits option.splits if_splits)

lemma task_step_enabled:
  "task_step env msg pc s = Some (pc', s') \<Longrightarrow> unreleased (msg, pc)"
  by (auto simp: task_step_def unreleased_def split: task_pc.splits)

lemma worker_step_cases:
  assumes "step env (Worker i) s = Some s'"
  obtains pc' t where "i < length (tasks s)"
    and "task_step env (fst (tasks s ! i)) (snd (tasks s ! i)) s = Some (pc', t)"
    and "s' = t\<lparr>tasks := (tasks s)[i := (fst (tasks s ! i), pc')]\<rparr>"
proof -
  from assms have i: "i < length (tasks s)"
    by (auto simp: step_def split: if_splits)
  with assms obtain pc' t where
    ts: "task_step env (fst (tasks s ! i)) (snd (tasks s ! i)) s = Some (pc', t)"
    and s': "s' = t\<lparr>tasks := (tasks t)[i := (fst (tasks s ! i), pc')]\<rparr>"
    by (auto simp: step_def split: option.splits prod.splits)
  from task_step_frame [OF ts] have "tasks t = tasks s" by simp
  with s' have "s' = t\<lparr>tasks := (tasks s)[i := (fst (tasks s ! i), pc')]\<rparr>" by simp
  with i ts show ?thesis by (rule that)
qed

lemma worker_barrier_inv:
  assumes st: "step env (Worker i) s = Some s'" and inv: "barrier_inv s"
  shows "barrier_inv s'"
proof -
  from st obtain pc' t where i: "i < length (tasks s)"
    and ts: "task_step env (fst (tasks s ! i)) (snd (tasks s ! i)) s = Some (pc', t)"
    and s': "s' = t\<lparr>tasks := (tasks s)[i := (fst (tasks s ! i), pc')]\<rparr>"
    by (rule worker_step_cases)
  let ?msg = "fst (tasks s ! i)" and ?pc = "snd (tasks s ! i)"
  from i have ne: "tasks s \<noteq> []" by auto
  with inv have sync: "started s \<and> Core_Sync (cfg s)"
    and le: "int (length (filter unreleased (tasks s))) \<le> wg s"
    and np: "filter panicked (tasks s) = []"
    by (auto simp: barrier_inv_def split: if_splits)
  from task_step_frame [OF ts] sync have sync': "started s' \<and> Core_Sync (cfg s')"
    by (simp add: s' started_def)
  have un: "unreleased (tasks s ! i)"
    using task_step_enabled [OF ts] by (simp add: unreleased_def)
  have len: "int (length (filter unreleased (tasks s'))) =
      int (length (filter unreleased (tasks s))) - 1 + (if unreleased (?msg, pc') then 1 else 0)"
    using filter_update_length [OF i, of unreleased "(?msg, pc')"] un by (simp add: s')
  from un have pos: "1 \<le> int (length (filter unreleased (tasks s)))"
    using i by (auto simp: filter_empty_conv Suc_le_eq)
  show ?thesis
  proof (cases ?pc)
    case (TDeferred r)
    with task_step_wg [OF ts] have w: "wg t = wg s - 1"
      and p: "pc' = (if wg s - 1 < 0 then TPanicked else TFinished r)" by auto
    from pos le have "\<not> wg s - 1 < 0" by simp
    with p have p': "pc' = TFinished r" by simp
    then have "\<not> unreleased (?msg, pc')" "\<not> panicked (?msg, pc')"
      by (simp_all add: unreleased_def panicked_def)
    with len le w np sync' show ?thesis
      by (simp add: barrier_inv_def s' filter_update_empty)
  next
    case TQueued
    with task_step_wg [OF ts] have "wg t = wg s" "unreleased (?msg, pc')" "\<not> panicked (?msg, pc')"
      by auto
    with len le np sync' show ?thesis
      by (simp add: barrier_inv_def s' filter_update_empty)
  next
    case (TAppend ls)
    with task_step_wg [OF ts] have "wg t = wg s" "unreleased (?msg, pc')" "\<not> panicked (?msg, pc')"
      by auto
    with len le np sync' show ?thesis
      by (simp add: barrier_inv_def s' filter_update_empty)
  next
    case (TLoaded l ls)
    with task_step_wg [OF ts] have "wg t = wg s" "unreleased (?msg, pc')" "\<not> panicked (?msg, pc')"
      by auto
    with len le np sync' show ?thesis
      by (simp add: barrier_inv_def s' filter_update_empty)
  next
    case (TFinished r)
    with un show ?thesis by (simp add: unreleased_def)
  next
    case TPanicked
    with un show ?thesis by (simp add: unreleased_def)
  qed
qed


lemma iteration_barrier_inv:
  assumes "barrier_inv s" and "started s"
  shows "barrier_inv (iteration env a n rest s)"
proof (cases "Core_Sync (cfg s)")
  case True
  with assms have "int (length (filter unreleased (tasks s))) \<le> wg s"
    and "filter panicked (tasks s) = []"
    by (auto simp: barrier_inv_def)
  with True show ?thesis
    by (auto simp: iteration_def Let_def barrier_inv_def started_def unreleased_def panicked_def)
next
  case False
  with assms have "tasks s = []" by (auto simp: barrier_inv_def)
  with False show ?thesis
    by (auto simp: iteration_def Let_def barrier_inv_def)
qed

lemma coord_barrier_inv:
  assumes "coord_step env a s = Some s'" and "barrier_inv s"
  shows "barrier_inv s'"
proof (cases "coord s")
  case (CStart req)
  with assms show ?thesis by (auto simp: coord_step_def barrier_inv_def started_def)
next
  case (CLoop rest)
  show ?thesis
  proof (cases rest)
    case Nil
    with CLoop assms show ?thesis
      by (auto simp: coord_step_def barrier_inv_def started_def split: if_splits)
  next
    case (Cons n ns)
    with CLoop assms have "s' = iteration env a n ns s" "started s"
      by (auto simp: coord_step_def started_def)
    with assms(2) show ?thesis by (simp add: iteration_barrier_inv)
  qed
next
  case (CReturned c l)
  with assms show ?thesis by (simp add: coord_step_def)
next
  case CPanicked
  with assms show ?thesis by (simp add: coord_step_def)
qed

lemma step_barrier_inv:
  assumes "step env ev s = Some s'" and "barrier_inv s"
  shows "barrier_inv s'"
proof (cases ev)
  case (Coord a)
  with assms show ?thesis by (auto simp: step_def intro: coord_barrier_inv)
next
  case (Worker i)
  with assms show ?thesis by (auto intro: worker_barrier_inv)
next
  case ClientGone
  with assms show ?thesis
    by (auto simp: step_def watcher_step_def barrier_inv_def started_def split: if_splits)
qed

lemma run_barrier_inv:
  "run env sched s = Some s' \<Longrightarrow> barrier_inv s \<Longrightarrow> barrier_inv s'"
proof (induction sched arbitrary: s)
  case Nil
  then show ?case by simp
next
  case (Cons ev evs)
  then obtain t where t: "step env ev s = Some t" and r: "run env evs t = Some s'"
    by (auto split: option.splits)
  from step_barrier_inv [OF t Cons.prems(2)] show ?case by (rule Cons.IH [OF r])
qed

lemma init_barrier_inv: "barrier_inv (init c req)"
  by (simp add: barrier_inv_def init_def started_def)

subsection \<open>Reachable states\<close>

lemma init_not_started: "\<not> started (init c req)"
  by (simp add: init_def started_def)

lemma init_cfg: "cfg (init c req) = c"
  by (simp add: init_def)

lemma run_append:
  "run env (xs @ ys) s = (case run env xs s of None \<Rightarrow> None | Some t \<Rightarrow> run env ys t)"
  by (induction xs arbitrary: s) (auto split: option.splits)

lemma reachable_barrier_inv: "run env sched (init c req) = Some s \<Longrightarrow> barrier_inv s"
  by (erule run_barrier_inv) (rule init_barrier_inv)

lemma unreleased_task_holds_unit:
  assumes "barrier_inv s" and "i < length (tasks s)" and "unreleased (tasks s ! i)"
  shows "1 \<le> wg s"
proof -
  from assms(2) have "tasks s \<noteq> []" by auto
  with assms(1) have le: "int (length (filter unreleased (tasks s))) \<le> wg s"
    by (auto simp: barrier_inv_def split: if_splits)
  from assms(2,3) have "tasks s ! i \<in> set (filter unreleased (tasks s))" by simp
  then have "filter unreleased (tasks s) \<noteq> []" by (metis empty_iff empty_set)
  then have "1 \<le> int (length (filter unreleased (tasks s)))"
    by (cases "filter unreleased (tasks s)") simp_all
  with le show ?thesis by simp
qed

lemma accepted_task_releases_exactly_once:
  assumes r: "run env sched (init c req) = Some s" and st: "step env (Worker i) s = Some s'"
  shows "case snd (tasks s ! i) of
           TDeferred r \<Rightarrow> wg s' = wg s - 1 \<and> snd (tasks s' ! i) = TFinished r
         | TQueued \<Rightarrow> wg s' = wg s \<and> unreleased (tasks s' ! i)
         | TAppend ls \<Rightarrow> wg s' = wg s \<and> unreleased (tasks s' ! i)
         | TLoaded l ls \<Rightarrow> wg s' = wg s \<and> unreleased (tasks s' ! i)
         | TFinished r \<Rightarrow> False
         | TPanicked \<Rightarrow> False"
proof -
  from st obtain pc' t where i: "i < length (tasks s)"
    and ts: "task_step env (fst (tasks s ! i)) (snd (tasks s ! i)) s = Some (pc', t)"
    and s': "s' = t\<lparr>tasks := (tasks s)[i := (fst (tasks s ! i), pc')]\<rparr>"
    by (rule worker_step_cases)
  have un: "unreleased (tasks s ! i)"
    using task_step_enabled [OF ts] by (simp add: unreleased_def)
  from reachable_barrier_inv [OF r] i un have w: "1 \<le> wg s"
    by (rule unreleased_task_holds_unit)
  from task_step_wg [OF ts] w un i show ?thesis
    by (cases "snd (tasks s ! i)") (auto simp: s' unreleased_def)
qed

lemma async_loop_accepts:
  "coord s = CLoop ns \<Longrightarrow> \<not> Core_Sync (cfg s) \<Longrightarrow>
     run env (replicate (length ns) (Coord True)) s =
       Some (s\<lparr>coord := CLoop [], count := count s + volume ns, enqueued := enqueued s @ ns\<rparr>)"
proof (induction ns arbitrary: s)
  case Nil
  then show ?case by simp
next
  case (Cons n ns)
  let ?t = "s\<lparr>enqueued := enqueued s @ [n], count := count s + count_of n, coord := CLoop ns\<rparr>"
  from Cons.prems have st: "step env (Coord True) s = Some ?t"
    by (simp add: step_def coord_step_def iteration_def Let_def)
  have "run env (replicate (length ns) (Coord True)) ?t =
      Some (?t\<lparr>coord := CLoop [], count := count ?t + volume ns, enqueued := enqueued ?t @ ns\<rparr>)"
    using Cons.prems by (intro Cons.IH) simp_all
  with st show ?case by (simp add: add.assoc)
qed

subsection \<open>A blocked coordinator\<close>

lemma blocked_coord: "blocked s \<Longrightarrow> step env (Coord a) s = None"
  by (simp add: blocked_def step_def coord_step_def)

lemma blocked_watcher: "blocked s \<Longrightarrow> step env ClientGone s = Some s' \<Longrightarrow> blocked s'"
  by (auto simp: blocked_def step_def watcher_step_def split: if_splits)

lemma no_unreleased_no_worker:
  assumes "filter unreleased (tasks s) = []"
  shows "step env (Worker i) s = None"
proof (rule ccontr)
  assume "step env (Worker i) s \<noteq> None"
  then obtain s' where st: "step env (Worker i) s = Some s'" by auto
  from st obtain pc' t where i: "i < length (tasks s)"
    and ts: "task_step env (fst (tasks s ! i)) (snd (tasks s ! i)) s = Some (pc', t)"
    by (rule worker_step_cases)
  from task_step_enabled [OF ts] have "unreleased (tasks s ! i)" by (simp add: unreleased_def)
  with i have "tasks s ! i \<in> set (filter unreleased (tasks s))" by simp
  with assms show False by simp
qed

lemma blocked_without_tasks_forever:
  "blocked s \<Longrightarrow> filter unreleased (tasks s) = [] \<Longrightarrow>
     map_option coord (run env sched s) \<in> {None, Some (CLoop [])}"
proof (induction sched arbitrary: s)
  case Nil
  then show ?case by (simp add: blocked_def)
next
  case (Cons ev evs)
  show ?case
  proof (cases ev)
    case (Coord a)
    with Cons.prems show ?thesis by (simp add: blocked_coord)
  next
    case (Worker i)
    with Cons.prems show ?thesis by (simp add: no_unreleased_no_worker)
  next
    case ClientGone
    let ?t = "watcher_step s"
    have st: "step env ClientGone s = Some ?t" by (simp add: step_def)
    from blocked_watcher [OF Cons.prems(1) st] have b: "blocked ?t" .
    from Cons.prems(2) have "filter unreleased (tasks ?t) = []"
      by (simp add: watcher_step_def)
    from Cons.IH [OF b this] ClientGone st show ?thesis by simp
  qed
qed

lemma blocked_without_worker_forever:
  "blocked s \<Longrightarrow>
     map_option coord (run env (map outside_worker choices) s) \<in> {None, Some (CLoop [])}"
proof (induction choices arbitrary: s)
  case Nil
  then show ?case by (simp add: blocked_def)
next
  case (Cons ch chs)
  show ?case
  proof (cases ch)
    case None
    let ?t = "watcher_step s"
    have st: "step env ClientGone s = Some ?t" by (simp add: step_def)
    from blocked_watcher [OF Cons.prems st] have "blocked ?t" .
    from Cons.IH [OF this] None st show ?thesis by (simp add: outside_worker_def)
  next
    case (Some a)
    with Cons.prems show ?thesis by (simp add: blocked_coord outside_worker_def)
  qed
qed

subsection \<open>The aggregated logs\<close>

lemma mset_concat_update:
  "i < length xs \<Longrightarrow>
     mset (concat (map f (xs[i := y]))) + mset (f (xs ! i)) = mset (concat (map f xs)) + mset (f y)"
proof (induction xs arbitrary: i)
  case Nil
  then show ?case by simp
next
  case (Cons x xs)
  show ?case
  proof (cases i)
    case 0
    then show ?thesis by simp
  next
    case (Suc j)
    with Cons.prems have "j < length xs" by simp
    from Cons.IH [OF this] Suc show ?thesis by (simp add: add.assoc)
  qed
qed

lemma list_all_update: "list_all P xs \<Longrightarrow> P y \<Longrightarrow> list_all P (xs[i := y])"
  by (auto simp: list_all_iff dest!: set_update_subset_insert [THEN subsetD])

lemma coord_logs_inv:
  assumes st: "coord_step env a s = Some s'" and b: "barrier_inv s" and l: "logs_inv env s"
  shows "logs_inv env s'"
proof (cases "coord s")
  case (CStart req)
  with b have "tasks s = []" by (simp add: barrier_inv_def started_def)
  with CStart st show ?thesis
    by (auto simp: coord_step_def logs_inv_def started_def downgrade_def split: if_splits)
next
  case (CLoop rest)
  then have started: "started s" by (simp add: started_def)
  show ?thesis
  proof (cases rest)
    case Nil
    show ?thesis
    proof (cases "Core_Sync (cfg s)")
      case True
      with st CLoop Nil have w: "wg s = 0" and s': "s' = s\<lparr>coord := CReturned (count s) (logs s),
          total_count := total_count s + count s\<rparr>"
        by (auto simp: coord_step_def split: if_splits)
      from b started True w have "filter unreleased (tasks s) = []"
        by (simp add: barrier_inv_def)
      with l started True show ?thesis
        by (simp add: s' logs_inv_def started_def)
    next
      case False
      with st CLoop Nil have s': "s' = s\<lparr>coord := CReturned (count s) (logs s),
          total_count := total_count s + count s\<rparr>"
        by (auto simp: coord_step_def split: if_splits)
      from l started False CLoop show ?thesis
        by (simp add: s' logs_inv_def started_def)
    qed
  next
    case (Cons n ns)
    with st CLoop have s': "s' = iteration env a n ns s"
      by (simp add: coord_step_def)
    show ?thesis
    proof (cases "Core_Sync (cfg s)")
      case True
      with l started have loc: "IsLocalQueue (Queue_Engine (cfg s))" by (simp add: logs_inv_def)
      from l started True loc show ?thesis
        unfolding s' by (simp add: iteration_def Let_def logs_inv_def started_def
            holds_response_def appended_def)
    next
      case False
      with l started CLoop have "wg s = 0" "logs s = []" by (simp_all add: logs_inv_def)
      with False show ?thesis
        unfolding s' by (simp add: iteration_def Let_def logs_inv_def started_def)
    qed
  qed
next
  case (CReturned c l)
  with st show ?thesis by (simp add: coord_step_def)
next
  case CPanicked
  with st show ?thesis by (simp add: coord_step_def)
qed

lemma task_step_logs:
  assumes "task_step env msg pc s = Some (pc', t)"
    and "holds_response env (cfg s) (msg, pc)"
    and "case pc of TLoaded l ls \<Rightarrow> l = logs s | TQueued \<Rightarrow> True | TAppend ls \<Rightarrow> True
          | TDeferred r \<Rightarrow> True | TFinished r \<Rightarrow> True | TPanicked \<Rightarrow> True"
    and "1 \<le> wg s"
  shows "holds_response env (cfg s) (msg, pc') \<and>
         mset (logs t) + mset (appended env (cfg s) (msg, pc)) =
           mset (logs s) + mset (appended env (cfg s) (msg, pc'))"
  using assms
  by (cases pc)
     (auto simp: task_step_def holds_response_def appended_def
       split: prod.splits option.splits if_splits)

lemma worker_logs_inv:
  assumes st: "step env (Worker i) s = Some s'" and b: "barrier_inv s" and l: "logs_inv env s"
    and f: "fresh s"
  shows "logs_inv env s'"
proof -
  from st obtain pc' t where i: "i < length (tasks s)"
    and ts: "task_step env (fst (tasks s ! i)) (snd (tasks s ! i)) s = Some (pc', t)"
    and s': "s' = t\<lparr>tasks := (tasks s)[i := (fst (tasks s ! i), pc')]\<rparr>"
    by (rule worker_step_cases)
  let ?msg = "fst (tasks s ! i)" and ?pc = "snd (tasks s ! i)"
  from i have "tasks s \<noteq> []" by auto
  with b have sync: "started s" "Core_Sync (cfg s)"
    by (auto simp: barrier_inv_def split: if_splits)
  with l have loc: "IsLocalQueue (Queue_Engine (cfg s))"
    and hr: "list_all (holds_response env (cfg s)) (tasks s)"
    and ms: "mset (logs s) = mset (concat (map (appended env (cfg s)) (tasks s)))"
    and rt: "case coord s of CReturned n l \<Rightarrow> l = logs s \<and> filter unreleased (tasks s) = []
         | CStart r \<Rightarrow> True | CLoop ns \<Rightarrow> True | CPanicked \<Rightarrow> True"
    by (simp_all add: logs_inv_def)
  have notret: "coord s \<noteq> CReturned n l'" for n l'
  proof
    assume "coord s = CReturned n l'"
    with rt have "filter unreleased (tasks s) = []" by simp
    from no_unreleased_no_worker [OF this] st show False by simp
  qed
  have un: "unreleased (tasks s ! i)"
    using task_step_enabled [OF ts] by (simp add: unreleased_def)
  from b i un have w: "1 \<le> wg s" by (rule unreleased_task_holds_unit)
  from hr i have h: "holds_response env (cfg s) (?msg, ?pc)"
    by (simp add: list_all_length)
  from f i have fr: "case ?pc of TLoaded l ls \<Rightarrow> l = logs s | TQueued \<Rightarrow> True | TAppend ls \<Rightarrow> True
          | TDeferred r \<Rightarrow> True | TFinished r \<Rightarrow> True | TPanicked \<Rightarrow> True"
    by (simp add: fresh_def list_all_length)
  from task_step_logs [OF ts h fr w]
  have h': "holds_response env (cfg s) (?msg, pc')"
    and a: "mset (logs t) + mset (appended env (cfg s) (?msg, ?pc)) =
           mset (logs s) + mset (appended env (cfg s) (?msg, pc'))"
    by simp_all
  from task_step_frame [OF ts] have fr': "cfg t = cfg s" "coord t = coord s" by simp_all
  from mset_concat_update [OF i, of "appended env (cfg s)" "(?msg, pc')"]
  have "mset (concat (map (appended env (cfg s)) ((tasks s)[i := (?msg, pc')]))) +
      mset (appended env (cfg s) (?msg, ?pc)) =
      mset (concat (map (appended env (cfg s)) (tasks s))) + mset (appended env (cfg s) (?msg, pc'))"
    by simp
  with a ms have ms': "mset (logs t) =
      mset (concat (map (appended env (cfg s)) ((tasks s)[i := (?msg, pc')])))"
    by (metis add_right_cancel)
  from hr h' have hr': "list_all (holds_response env (cfg s)) ((tasks s)[i := (?msg, pc')])"
    by (rule list_all_update)
  show ?thesis
  proof (cases "coord s")
    case (CReturned n l')
    with notret [of n l'] show ?thesis by simp
  next
    case (CStart r)
    with sync show ?thesis by (simp add: started_def)
  next
    case (CLoop ns)
    with sync loc fr' ms' hr' show ?thesis by (simp add: logs_inv_def s' started_def)
  next
    case CPanicked
    with sync loc fr' ms' hr' show ?thesis by (simp add: logs_inv_def s' started_def)
  qed
qed

lemma step_logs_inv:
  assumes "step env ev s = Some s'" and "barrier_inv s" and "logs_inv env s" and "fresh s"
  shows "logs_inv env s'"
proof (cases ev)
  case (Coord a)
  with assms show ?thesis by (auto simp: step_def intro: coord_logs_inv)
next
  case (Worker i)
  with assms show ?thesis by (auto intro: worker_logs_inv)
next
  case ClientGone
  with assms(1) have "s' = watcher_step s" by (simp add: step_def)
  with assms(3) show ?thesis
    by (auto simp: watcher_step_def logs_inv_def started_def split: coord.splits if_splits)
qed

lemma run_logs_inv:
  "serial env sched s \<Longrightarrow> run env sched s = Some s' \<Longrightarrow> barrier_inv s \<Longrightarrow> logs_inv env s \<Longrightarrow>
     logs_inv env s'"
proof (induction sched arbitrary: s)
  case Nil
  then show ?case by simp
next
  case (Cons ev evs)
  from Cons.prems(2) obtain t where t: "step env ev s = Some t" and r: "run env evs t = Some s'"
    by (auto split: option.splits)
  from Cons.prems(1) t have f: "fresh s" and se: "serial env evs t" by simp_all
  from step_barrier_inv [OF t Cons.prems(3)] have b: "barrier_inv t" .
  from step_logs_inv [OF t Cons.prems(3,4) f] have "logs_inv env t" .
  from Cons.IH [OF se r b this] show ?case .
qed

lemma init_logs_inv: "logs_inv env (init c req)"
  by (simp add: logs_inv_def init_def started_def)

lemma released_appended:
  "\<not> unreleased t \<Longrightarrow>
     appended env c t = (if snd t = TFinished None then fst (SendNotification env (fst t) c) else [])"
  by (auto simp: unreleased_def appended_def split: task_pc.splits)

lemma overlapping_appends_are_not_serial: "\<not> serial env_ok sched_race (init cfg_sync req_ab)"
  by (simp add: model_defs scenario_defs req_ab_def sched_race_def fresh_def)

subsection \<open>Requests of the reclaimer\<close>

lemma requests_Cons:
  "requests (Do req # es) = req # requests es"
  "requests (Sleep n # es) = requests es"
  "requests (LogError # es) = requests es"
  by (simp_all add: requests_def)

lemma requests_append: "requests (xs @ ys) = requests xs @ requests ys"
  by (simp add: requests_def)

lemma requests_Nil: "requests [] = []"
  by (simp add: requests_def)

section \<open>The claims\<close>

text \<open>
  C1. Claimed: in sync mode the barrier unit registered for a notification is released
  exactly once whatever the outcome, capacity rejection included, so the wait ends.
  The code at the failing input: sync mode on the local engine, one notification, and
  \<open>QueueTask\<close> answers with an error. The unit added by \<open>wg.Add(1)\<close> is never
  released: the counter stays 1, no task exists, and every further schedule either
  names a step that is not enabled or leaves the coordinator at the wait of line 343.
\<close>

theorem sync_rejection_never_releases:
  "run env_ok [Coord True, Coord False] (init cfg_sync req_one) =
     Some ((init cfg_sync req_one)\<lparr>coord := CLoop [], count := 1, wg := 1\<rparr>) \<and>
   (\<forall>sched. map_option coord (run env_ok ([Coord True, Coord False] @ sched) (init cfg_sync req_one))
       \<in> {None, Some (CLoop [])})"
proof -
  let ?s = "(init cfg_sync req_one :: string state)\<lparr>coord := CLoop [], count := 1, wg := 1\<rparr>"
  have r: "run env_ok [Coord True, Coord False] (init cfg_sync req_one) = Some ?s"
    by (simp add: model_defs scenario_defs scenario2_defs)
  have "blocked ?s" "filter unreleased (tasks ?s) = []"
    by (simp_all add: blocked_def init_def cfg_sync_def)
  then have f: "map_option coord (run env_ok sched ?s) \<in> {None, Some (CLoop [])}" for sched
    by (rule blocked_without_tasks_forever)
  have app: "run env_ok ([Coord True, Coord False] @ sched) (init cfg_sync req_one) =
      run env_ok sched ?s" for sched
    unfolding run_append r by simp
  show ?thesis
  proof (intro conjI allI)
    show "run env_ok [Coord True, Coord False] (init cfg_sync req_one) = Some ?s" by (rule r)
  next
    fix sched
    show "map_option coord (run env_ok ([Coord True, Coord False] @ sched) (init cfg_sync req_one))
        \<in> {None, Some (CLoop [])}"
      unfolding app by (rule f)
  qed
qed

text \<open>
  C2, as claimed, fails: a rejected notification with one token and a topic gets one
  entry, not two, and the coordinator then panics in \<open>wg.Done()\<close> instead of returning
  the logs.
\<close>

theorem rejection_logs_counterexample:
  "count_of (notif [''a''] PlatFormIos ''news'') = 2 \<and>
   map_option (\<lambda>s. (coord s, logs s))
     (run env_ok [Coord True, Coord False] (init cfg_async req_topic)) = Some (CPanicked, [''a''])"
  by (simp add: model_defs scenario_defs scenario2_defs)

text \<open>
  C2, amended. When the submission of a notification through \<open>q.Queue\<close> (the branch
  taken unless the engine is local and sync mode is on) is rejected, the coordinator
  appends to \<open>logs\<close> exactly one entry per token of that notification, in token order
  and none for the topic, each built with status Failed and error
  \<open>max capacity reached\<close>; no task is created and nothing is enqueued or reclaimed.
\<close>

theorem rejected_submission_logs_every_token:
  assumes "coord s = CLoop (notification # rest)"
    and "\<not> (IsLocalQueue (Queue_Engine (cfg s)) \<and> Core_Sync (cfg s))"
  shows "\<exists>s'. step env (Coord False) s = Some s' \<and>
           logs s' = logs s @
             map (\<lambda>token. GetLogPushEntry env
                    \<lparr>in_ID = ID notification, in_Status = FailedPush, in_Token = token,
                     in_Message = Message notification, in_Platform = Platform notification,
                     in_Error = ''max capacity reached'', in_HideToken = Log_HideToken (cfg s),
                     in_Format = Log_Format (cfg s)\<rparr>) (Tokens notification) \<and>
           tasks s' = tasks s \<and> enqueued s' = enqueued s \<and> reclaims s' = reclaims s"
  using assms
  by (auto simp: step_def coord_step_def iteration_def Let_def markFailedNotification_map
      failedInput_def)

theorem rejected_submission_logs_every_token_witness:
  "map_option logs (run env_ok [Coord True, Coord False] (init cfg_async req_topic)) = Some [''a'']"
proof -
  let ?n = "notif [''a''] PlatFormIos ''news''"
  let ?s = "(init cfg_async req_topic :: string state)\<lparr>coord := CLoop [?n]\<rparr>"
  have r: "step env_ok (Coord True) (init cfg_async req_topic) = Some ?s"
    by (simp add: model_defs scenario_defs scenario2_defs)
  have "\<exists>s'. step env_ok (Coord False) ?s = Some s' \<and>
           logs s' = logs ?s @
             map (\<lambda>token. GetLogPushEntry env_ok
                    \<lparr>in_ID = ID ?n, in_Status = FailedPush, in_Token = token,
                     in_Message = Message ?n, in_Platform = Platform ?n,
                     in_Error = ''max capacity reached'', in_HideToken = Log_HideToken (cfg ?s),
                     in_Format = Log_Format (cfg ?s)\<rparr>) (Tokens ?n) \<and>
           tasks s' = tasks ?s \<and> enqueued s' = enqueued ?s \<and> reclaims s' = reclaims ?s"
    by (rule rejected_submission_logs_every_token)
       (simp_all add: init_def cfg_async_def)
  then obtain s' where "step env_ok (Coord False) ?s = Some s'" and "logs s' = [''a'']"
    by (auto simp: init_def notif_def env_ok_def)
  with r show ?thesis by simp
qed

text \<open>
  C3. Claimed: in sync mode a cancellation that fires while dispatch waits on the
  barrier releases the wait. The code at the failing input: sync mode, one accepted
  task whose send has not completed, then the request's context is done. The watcher
  cancels a context that \<open>handleNotification\<close> never reads; every further schedule
  of watcher and coordinator steps either names a step that is not enabled or leaves
  the coordinator at the wait.
\<close>

theorem cancellation_does_not_release_wait:
  "run env_ok [Coord True, Coord True, ClientGone] (init cfg_sync req_one) =
     Some ((init cfg_sync req_one)\<lparr>coord := CLoop [], count := 1, wg := 1,
             tasks := [(notif [''a''] PlatFormIos [], TQueued)], ctx_cancelled := True\<rparr>) \<and>
   (\<forall>choices. map_option coord
        (run env_ok ([Coord True, Coord True, ClientGone] @ map outside_worker choices)
           (init cfg_sync req_one)) \<in> {None, Some (CLoop [])})"
proof -
  let ?s = "(init cfg_sync req_one :: string state)\<lparr>coord := CLoop [], count := 1, wg := 1,
             tasks := [(notif [''a''] PlatFormIos [], TQueued)], ctx_cancelled := True\<rparr>"
  have r: "run env_ok [Coord True, Coord True, ClientGone] (init cfg_sync req_one) = Some ?s"
    by (simp add: model_defs scenario_defs scenario2_defs)
  have "blocked ?s"
    by (simp add: blocked_def init_def cfg_sync_def)
  then have f: "map_option coord (run env_ok (map outside_worker choices) ?s) \<in> {None, Some (CLoop [])}"
    for choices by (rule blocked_without_worker_forever)
  have app: "run env_ok ([Coord True, Coord True, ClientGone] @ sched) (init cfg_sync req_one) =
      run env_ok sched ?s" for sched
    unfolding run_append r by simp
  show ?thesis
  proof (intro conjI allI)
    show "run env_ok [Coord True, Coord True, ClientGone] (init cfg_sync req_one) = Some ?s"
      by (rule r)
  next
    fix choices
    show "map_option coord
        (run env_ok ([Coord True, Coord True, ClientGone] @ map outside_worker choices)
           (init cfg_sync req_one)) \<in> {None, Some (CLoop [])}"
      unfolding app by (rule f)
  qed
qed

text \<open>
  C4, as claimed, fails: a send that returns one entry and the error \<open>timeout\<close> leaves
  the returned logs empty.
\<close>

theorem generic_error_drops_logs_counterexample:
  "SendNotification env_timeout (notif [''a''] PlatFormIos []) cfg_sync = ([''a''], Some ''timeout'') \<and>
   map_option coord
     (run env_timeout [Coord True, Coord True, Worker 0, Worker 0, Coord True]
        (init cfg_sync req_one)) = Some (CReturned 1 [])"
  by (simp add: model_defs scenario_defs scenario2_defs)

text \<open>
  C4, amended. A task whose send returns an error without \<open>Unregistered\<close> in its text
  returns that error in two steps: it releases its barrier unit and changes nothing
  else; the logs the send produced are not appended, no reclamation is scheduled, and
  the coordinator and the other tasks are untouched.
\<close>

theorem generic_error_releases_without_logs:
  assumes "run env sched (init c req) = Some s"
    and "i < length (tasks s)" and "tasks s ! i = (msg, TQueued)"
    and "SendNotification env msg (cfg s) = (resp_Logs, Some err)"
    and "\<not> strings_Contains err ''Unregistered''"
  shows "run env [Worker i, Worker i] s =
           Some (s\<lparr>tasks := (tasks s)[i := (msg, TFinished (Some err))], wg := wg s - 1\<rparr>)"
proof -
  have "unreleased (tasks s ! i)" using assms(3) by (simp add: unreleased_def)
  with reachable_barrier_inv [OF assms(1)] assms(2) have "1 \<le> wg s"
    by (rule unreleased_task_holds_unit)
  with assms(2-5) show ?thesis
    by (simp add: step_def task_step_def)
qed

theorem generic_error_releases_without_logs_witness:
  "map_option (\<lambda>s. (logs s, wg s, reclaims s, map snd (tasks s)))
     (run env_timeout [Coord True, Coord True, Worker 0, Worker 0] (init cfg_sync req_one)) =
   Some ([], 0, [], [TFinished (Some ''timeout'')])"
proof -
  let ?s = "(init cfg_sync req_one :: string state)\<lparr>coord := CLoop [], count := 1, wg := 1,
             tasks := [(notif [''a''] PlatFormIos [], TQueued)]\<rparr>"
  have r: "run env_timeout [Coord True, Coord True] (init cfg_sync req_one) = Some ?s"
    by (simp add: model_defs scenario_defs scenario2_defs)
  have c: "\<not> strings_Contains ''timeout'' ''Unregistered''" by simp
  have "run env_timeout [Worker 0, Worker 0] ?s =
      Some (?s\<lparr>tasks := (tasks ?s)[0 := (notif [''a''] PlatFormIos [], TFinished (Some ''timeout''))],
              wg := wg ?s - 1\<rparr>)"
    by (rule generic_error_releases_without_logs [OF r _ _ _ c, where resp_Logs = "[''a'']"])
       (simp_all add: scenario_defs scenario2_defs init_def)
  then have "run env_timeout ([Coord True, Coord True] @ [Worker 0, Worker 0])
      (init cfg_sync req_one) =
      Some (?s\<lparr>tasks := (tasks ?s)[0 := (notif [''a''] PlatFormIos [], TFinished (Some ''timeout''))],
              wg := wg ?s - 1\<rparr>)"
    unfolding run_append r by simp
  then show ?thesis
    by (simp add: init_def)
qed

text \<open>
  C5, as claimed, fails: when two tasks both read \<open>logs\<close> before either writes the
  appended slice back, the entry of the first is lost from the logs dispatch returns.
\<close>

theorem concurrent_append_loses_entry_counterexample:
  "map_option (\<lambda>s. (coord s, map snd (tasks s))) (run env_ok sched_race (init cfg_sync req_ab)) =
     Some (CReturned 2 [''b''], [TFinished None, TFinished None])"
  by (simp add: model_defs scenario_defs req_ab_def sched_race_def)

text \<open>
  C5, amended. Along a serial schedule (no task writes \<open>logs\<close> between the read and the
  write of another task's append), the logs that dispatch returns contain, each once,
  exactly the entries that the sends of the tasks which returned \<open>nil\<close> produced, and
  every task has released its unit by then.
\<close>

theorem serial_appends_keep_every_entry:
  assumes "serial env sched (init c req)" and "run env sched (init c req) = Some s"
    and "coord s = CReturned n l"
  shows "mset l =
           mset (concat (map (\<lambda>t. if snd t = TFinished None
                                    then fst (SendNotification env (fst t) (cfg s)) else [])
                          (tasks s))) \<and>
         filter unreleased (tasks s) = []"
proof -
  have b: "barrier_inv s" using assms(2) by (rule reachable_barrier_inv)
  have li: "logs_inv env s"
    using assms(1,2) init_barrier_inv init_logs_inv by (rule run_logs_inv)
  from assms(3) have st: "started s" by (simp add: started_def)
  show ?thesis
  proof (cases "Core_Sync (cfg s)")
    case True
    with li st assms(3) have l: "l = logs s"
      and m: "mset (logs s) = mset (concat (map (appended env (cfg s)) (tasks s)))"
      and u: "filter unreleased (tasks s) = []"
      by (simp_all add: logs_inv_def)
    from u have "\<forall>t \<in> set (tasks s). \<not> unreleased t" by (simp add: filter_empty_conv)
    then have "map (appended env (cfg s)) (tasks s) =
        map (\<lambda>t. if snd t = TFinished None then fst (SendNotification env (fst t) (cfg s)) else [])
          (tasks s)"
      by (intro map_cong refl released_appended) simp
    with l m u show ?thesis by simp
  next
    case False
    with b st have "tasks s = []" by (simp add: barrier_inv_def)
    moreover from li st False assms(3) have "l = []" by (simp add: logs_inv_def)
    ultimately show ?thesis by simp
  qed
qed

theorem serial_appends_keep_every_entry_witness:
  "serial env_ok sched_two (init cfg_sync req_two) \<and>
   map_option coord (run env_ok sched_two (init cfg_sync req_two)) =
     Some (CReturned 3 [''a'', ''b'', ''c''])"
proof -
  have se: "serial env_ok sched_two (init cfg_sync req_two)"
    by (simp add: model_defs scenario_defs fresh_def)
  obtain s where r: "run env_ok sched_two (init cfg_sync req_two) = Some s"
    and c: "coord s = CReturned 3 [''a'', ''b'', ''c'']"
    and t: "tasks s = [(notif [''a'', ''b''] PlatFormIos [], TFinished None),
                       (notif [''c''] PlatFormIos [], TFinished None)]"
    by (simp add: model_defs scenario_defs)
  from serial_appends_keep_every_entry [OF se r c] t
  have "mset [''a'', ''b'', ''c''] = mset (Tokens (notif [''a'', ''b''] PlatFormIos []) @
      Tokens (notif [''c''] PlatFormIos []))"
    by (simp add: env_ok_def)
  with se r c show ?thesis by simp
qed

text \<open>
  C6, as claimed, fails. The count is not accumulated whatever the outcome of a
  submission: with sync mode off, a notification with one token whose \<open>q.Queue\<close>
  submission is rejected leaves \<open>count\<close> at 0, and dispatch panics instead of returning
  it. And the notifications counted are not only those whose platform is enabled: with
  every platform disabled, a notification whose platform is none of the three is
  counted.
\<close>

theorem count_is_not_accumulated_counterexample:
  "length (Tokens (notif [''a''] PlatFormIos [])) = 1 \<and>
   map_option (\<lambda>s. (coord s, count s))
     (run env_ok [Coord True, Coord False] (init cfg_async req_one)) = Some (CPanicked, 0) \<and>
   Ios_Enabled cfg_none = False \<and> Android_Enabled cfg_none = False \<and>
   Huawei_Enabled cfg_none = False \<and>
   map_option coord (run env_ok [Coord True, Coord True, Coord True] (init cfg_none req_other)) =
     Some (CReturned 1 [])"
  by (simp add: model_defs scenario_defs scenario2_defs cfg_none_def req_other_def)

text \<open>
  C6, amended. Whatever the schedule, the queue's answers and the outcomes of the sends
  are: when the coordinator has left the second loop, \<open>count\<close> is the sum, over the
  notifications of the request that are not on a disabled platform, of the number of
  tokens plus one if \<open>To\<close> is not empty; and whenever dispatch returns, that is the
  count it returns.
\<close>

theorem count_is_attempted_volume:
  assumes "run env sched (init c req) = Some s"
  shows "(coord s = CLoop [] \<longrightarrow>
            count s = sum_list (map (\<lambda>notification.
              int (length (Tokens notification)) + (if To notification = [] then 0 else 1))
            (filter (\<lambda>notification. \<not> on_disabled_platform c notification) (Notifications req)))) \<and>
         (\<forall>n l. coord s = CReturned n l \<longrightarrow>
            n = sum_list (map (\<lambda>notification.
              int (length (Tokens notification)) + (if To notification = [] then 0 else 1))
            (filter (\<lambda>notification. \<not> on_disabled_platform c notification) (Notifications req))))"
proof -
  have v: "volume (newNotification c req) = sum_list (map (\<lambda>notification.
              int (length (Tokens notification)) + (if To notification = [] then 0 else 1))
            (filter (\<lambda>notification. \<not> on_disabled_platform c notification) (Notifications req)))"
    by (simp add: volume_def newNotification_filter count_of_def [abs_def]
        platform_enabled_iff [abs_def])
  have "count_inv (volume (newNotification c req)) s"
    using run_count_inv [OF assms init_count_inv] .
  then show ?thesis
    unfolding v by (auto simp: count_inv_def)
qed

theorem count_is_attempted_volume_witness:
  "map_option coord (run env_ok sched_two (init cfg_sync req_two)) =
     Some (CReturned 3 [''a'', ''b'', ''c'']) \<and>
   map_option coord
     (run env_ok [Coord True, Coord True, Worker 0, Worker 0, Worker 0, Worker 0, Coord True]
        (init cfg_android req_two)) = Some (CReturned 1 [''x''])"
proof -
  obtain s where r: "run env_ok sched_two (init cfg_sync req_two) = Some s"
    and c: "coord s = CReturned (count s) [''a'', ''b'', ''c'']"
    by (simp add: model_defs scenario_defs)
  from count_is_attempted_volume [OF r] c have n: "count s = 3"
    by (simp add: scenario_defs on_disabled_platform_def)
  obtain t where r': "run env_ok [Coord True, Coord True, Worker 0, Worker 0, Worker 0, Worker 0,
      Coord True] (init cfg_android req_two) = Some t"
    and c': "coord t = CReturned (count t) [''x'']"
    by (simp add: model_defs scenario_defs cfg_android_def)
  from count_is_attempted_volume [OF r'] c' have "count t = 1"
    by (simp add: scenario_defs cfg_android_def on_disabled_platform_def)
  with n r c r' c' show ?thesis by simp
qed

text \<open>
  C7. With sync configured and an engine that is not local, the coordinator never
  waits on the barrier: at line 342 its step is enabled whatever the counter and
  returns; and when the queue accepts every submission, the coordinator's own steps
  alone, one per notification between entry and return, enqueue every kept
  notification and return the count with empty logs.
\<close>

theorem sync_on_remote_engine_never_waits:
  fixes env :: "'e env"
  assumes "Core_Sync c" and "\<not> IsLocalQueue (Queue_Engine c)"
  shows "(\<forall>sched s b. run env sched (init c req) = Some s \<longrightarrow> coord s = CLoop [] \<longrightarrow>
            step env (Coord b) s =
              Some (s\<lparr>coord := CReturned (count s) (logs s),
                      total_count := total_count s + count s\<rparr>)) \<and>
         run env (Coord True # replicate (length (newNotification c req)) (Coord True) @ [Coord True])
             (init c req) =
           Some ((init c req)\<lparr>cfg := c\<lparr>Core_Sync := False\<rparr>,
                   coord := CReturned (volume (newNotification c req)) [],
                   count := volume (newNotification c req),
                   enqueued := newNotification c req,
                   total_count := volume (newNotification c req)\<rparr>)"
proof (intro conjI allI impI)
  have d: "downgrade c = c\<lparr>Core_Sync := False\<rparr>"
    using assms by (simp add: downgrade_def)
  {
    fix sched s b
    assume r: "run env sched (init c req) = Some s" and l: "coord s = CLoop []"
    from l have "started s" by (simp add: started_def)
    with run_cfg [OF r] d have "\<not> Core_Sync (cfg s)"
      by (simp add: init_not_started init_cfg)
    with l show "step env (Coord b) s =
        Some (s\<lparr>coord := CReturned (count s) (logs s), total_count := total_count s + count s\<rparr>)"
      by (simp add: step_def coord_step_def)
  }
  let ?ns = "newNotification c req"
  let ?s1 = "(init c req :: 'e state)\<lparr>cfg := c\<lparr>Core_Sync := False\<rparr>, coord := CLoop ?ns\<rparr>"
  have "newNotification (c\<lparr>Core_Sync := False\<rparr>) req = newNotification c req"
    using newNotification_downgrade [of c req] by (simp add: d)
  then have first: "step env (Coord True) (init c req) = Some ?s1"
    by (simp add: step_def coord_step_def d init_def)
  have loop: "run env (replicate (length ?ns) (Coord True)) ?s1 =
      Some (?s1\<lparr>coord := CLoop [], count := count ?s1 + volume ?ns, enqueued := enqueued ?s1 @ ?ns\<rparr>)"
    using async_loop_accepts [of ?s1 ?ns env] by simp
  show "run env (Coord True # replicate (length ?ns) (Coord True) @ [Coord True]) (init c req) =
      Some ((init c req)\<lparr>cfg := c\<lparr>Core_Sync := False\<rparr>, coord := CReturned (volume ?ns) [],
              count := volume ?ns, enqueued := ?ns, total_count := volume ?ns\<rparr>)"
    by (simp add: first run_append loop) (simp add: step_def coord_step_def init_def)
qed

theorem sync_on_remote_engine_never_waits_witness:
  "Core_Sync cfg_remote \<and> \<not> IsLocalQueue (Queue_Engine cfg_remote) \<and>
   map_option coord (run env_ok [Coord True, Coord True, Coord True, Coord True]
      (init cfg_remote req_two)) = Some (CReturned 3 [])"
proof -
  have a: "Core_Sync cfg_remote" and b: "\<not> IsLocalQueue (Queue_Engine cfg_remote)"
    by (simp_all add: cfg_remote_def IsLocalQueue_def)
  have n: "newNotification cfg_remote req_two = [notif [''a'', ''b''] PlatFormIos [], notif [''c''] PlatFormIos []]"
    by (simp add: newNotification_def platform_enabled_def cfg_remote_def req_two_def notif_def)
  from sync_on_remote_engine_never_waits [OF a b, of env_ok req_two, THEN conjunct2]
  show ?thesis using a b by (simp add: n volume_def count_of_def notif_def)
qed

text \<open>
  C8. A task whose send returns an error with \<open>Unregistered\<close> in its text runs to its
  end and returns \<open>nil\<close>: it appends the logs the send produced, releases one barrier
  unit, and has started one reclamation per token of its notification, with the
  cleaner URL of the environment, for none of which it waits.
\<close>

theorem unregistered_token_is_soft_outcome:
  assumes "run env sched (init c req) = Some s"
    and "i < length (tasks s)" and "tasks s ! i = (msg, TQueued)"
    and "SendNotification env msg (cfg s) = (resp_Logs, Some err)"
    and "strings_Contains err ''Unregistered''"
  shows "run env [Worker i, Worker i, Worker i, Worker i] s =
           Some (s\<lparr>tasks := (tasks s)[i := (msg, TFinished None)],
                   logs := logs s @ resp_Logs,
                   wg := wg s - 1,
                   reclaims := reclaims s @ map (\<lambda>token. (token, cleanerApiUrl env)) (Tokens msg)\<rparr>)"
proof -
  have "unreleased (tasks s ! i)" using assms(3) by (simp add: unreleased_def)
  with reachable_barrier_inv [OF assms(1)] assms(2) have "1 \<le> wg s"
    by (rule unreleased_task_holds_unit)
  with assms(2-5) show ?thesis
    by (simp add: step_def task_step_def)
qed

theorem unregistered_token_is_soft_outcome_witness:
  "map_option (\<lambda>s. (logs s, wg s, reclaims s, map snd (tasks s)))
     (run env_unreg [Coord True, Coord True, Worker 0, Worker 0, Worker 0, Worker 0]
        (init cfg_sync req_one)) =
   Some ([''a''], 0, [(''a'', ''https://cleaner.tolki.app'')], [TFinished None])"
proof -
  let ?s = "(init cfg_sync req_one :: string state)\<lparr>coord := CLoop [], count := 1, wg := 1,
             tasks := [(notif [''a''] PlatFormIos [], TQueued)]\<rparr>"
  have r: "run env_unreg [Coord True, Coord True] (init cfg_sync req_one) = Some ?s"
    by (simp add: model_defs scenario_defs scenario2_defs)
  have c: "strings_Contains ''Unregistered: token-x'' ''Unregistered''" by simp
  have "run env_unreg [Worker 0, Worker 0, Worker 0, Worker 0] ?s =
      Some (?s\<lparr>tasks := (tasks ?s)[0 := (notif [''a''] PlatFormIos [], TFinished None)],
              logs := logs ?s @ [''a''], wg := wg ?s - 1,
              reclaims := reclaims ?s @
                map (\<lambda>token. (token, cleanerApiUrl env_unreg)) (Tokens (notif [''a''] PlatFormIos []))\<rparr>)"
    by (rule unregistered_token_is_soft_outcome [OF r _ _ _ c])
       (simp_all add: scenario_defs scenario2_defs init_def)
  then have "run env_unreg ([Coord True, Coord True] @ [Worker 0, Worker 0, Worker 0, Worker 0])
      (init cfg_sync req_one) =
      Some (?s\<lparr>tasks := (tasks ?s)[0 := (notif [''a''] PlatFormIos [], TFinished None)],
              logs := logs ?s @ [''a''], wg := wg ?s - 1,
              reclaims := reclaims ?s @
                map (\<lambda>token. (token, cleanerApiUrl env_unreg)) (Tokens (notif [''a''] PlatFormIos []))\<rparr>)"
    unfolding run_append r by simp
  then show ?thesis
    by (simp add: init_def cleanerApiUrl_def scenario_defs scenario2_defs)
qed

text \<open>
  C9, as claimed, fails: a success status does not end the attempts unless it is 200.
  Against a service that answers 204 to every request the reclaimer makes all three
  requests, and it waits two seconds after each of them, the third included.
\<close>

theorem reclaimer_stops_only_at_200_counterexample:
  "deleteUnregisteredToken (\<lambda>url. True) always_204 ''tok'' ''https://cleaner.tolki.app'' =
     [Do \<lparr>Method = ''DELETE'', URL = ''https://cleaner.tolki.app/tok''\<rparr>, Sleep 2,
      Do \<lparr>Method = ''DELETE'', URL = ''https://cleaner.tolki.app/tok''\<rparr>, Sleep 2,
      Do \<lparr>Method = ''DELETE'', URL = ''https://cleaner.tolki.app/tok''\<rparr>, Sleep 2]"
  by (simp add: deleteUnregisteredToken_def NewRequest_def attempts_loop_unrolled always_204_def)

text \<open>
  C9, amended. The reclaimer called with the cleaner URL of the environment (the value
  of \<open>CLEANER_API_URL\<close>, or the default when that is empty) builds a DELETE request
  to that URL, a slash and the token, and only writes a log line if the request cannot
  be built. It makes at most three attempts: an attempt whose response has status 200
  ends them; after a network error (which it logs) or a response with any other status
  it waits two seconds, also after the third attempt. Whatever the base URL, it makes
  one request if the first response has status 200, two if the second has, and three
  otherwise, all of them that DELETE request. Its result is the sequence of its
  effects: it returns nothing to its caller.
\<close>

theorem reclaimer_bounded_retry:
  "deleteUnregisteredToken url_ok do token (cleanerApiUrl env) =
     (let base = (if Getenv env ''CLEANER_API_URL'' = [] then ''https://cleaner.tolki.app''
                  else Getenv env ''CLEANER_API_URL'');
          req = \<lparr>Method = ''DELETE'', URL = base @ ''/'' @ token\<rparr>;
          attempt = (\<lambda>k. case do k of
                          NetError err \<Rightarrow> [Do req, LogError, Sleep 2]
                        | Response StatusCode \<Rightarrow>
                            if StatusCode = 200 then [Do req] else [Do req, Sleep 2])
      in if url_ok (base @ ''/'' @ token)
         then attempt 0 @
              (if do 0 = Response 200 then []
               else attempt 1 @ (if do 1 = Response 200 then [] else attempt 2))
         else [LogError]) \<and>
   requests (deleteUnregisteredToken url_ok do token cleanerServiceURL) =
     (if url_ok (cleanerServiceURL @ ''/'' @ token)
      then replicate (if do 0 = Response 200 then 1 else if do 1 = Response 200 then 2 else 3)
             \<lparr>Method = ''DELETE'', URL = cleanerServiceURL @ ''/'' @ token\<rparr>
      else [])"
proof
  show "deleteUnregisteredToken url_ok do token (cleanerApiUrl env) =
     (let base = (if Getenv env ''CLEANER_API_URL'' = [] then ''https://cleaner.tolki.app''
                  else Getenv env ''CLEANER_API_URL'');
          req = \<lparr>Method = ''DELETE'', URL = base @ ''/'' @ token\<rparr>;
          attempt = (\<lambda>k. case do k of
                          NetError err \<Rightarrow> [Do req, LogError, Sleep 2]
                        | Response StatusCode \<Rightarrow>
                            if StatusCode = 200 then [Do req] else [Do req, Sleep 2])
      in if url_ok (base @ ''/'' @ token)
         then attempt 0 @
              (if do 0 = Response 200 then []
               else attempt 1 @ (if do 1 = Response 200 then [] else attempt 2))
         else [LogError])"
    by (simp add: deleteUnregisteredToken_def NewRequest_def cleanerApiUrl_def
        attempts_loop_unrolled Let_def)
  show "requests (deleteUnregisteredToken url_ok do token cleanerServiceURL) =
     (if url_ok (cleanerServiceURL @ ''/'' @ token)
      then replicate (if do 0 = Response 200 then 1 else if do 1 = Response 200 then 2 else 3)
             \<lparr>Method = ''DELETE'', URL = cleanerServiceURL @ ''/'' @ token\<rparr>
      else [])"
    by (simp add: deleteUnregisteredToken_def NewRequest_def attempts_loop_unrolled Let_def
        requests_Cons requests_Nil requests_append numeral_2_eq_2 numeral_3_eq_3
        split: http_outcome.splits)
qed

theorem reclaimer_bounded_retry_witness:
  "deleteUnregisteredToken (\<lambda>url. True) always_down ''tok'' (cleanerApiUrl env_ok) =
     [Do \<lparr>Method = ''DELETE'', URL = ''https://cleaner.tolki.app/tok''\<rparr>, LogError, Sleep 2,
      Do \<lparr>Method = ''DELETE'', URL = ''https://cleaner.tolki.app/tok''\<rparr>, Sleep 2,
      Do \<lparr>Method = ''DELETE'', URL = ''https://cleaner.tolki.app/tok''\<rparr>, LogError, Sleep 2] \<and>
   deleteUnregisteredToken (\<lambda>url. True) up_at_second ''tok'' (cleanerApiUrl env_ok) =
     [Do \<lparr>Method = ''DELETE'', URL = ''https://cleaner.tolki.app/tok''\<rparr>, Sleep 2,
      Do \<lparr>Method = ''DELETE'', URL = ''https://cleaner.tolki.app/tok''\<rparr>]"
  using reclaimer_bounded_retry [of "\<lambda>url. True" always_down "''tok''" env_ok, THEN conjunct1]
    reclaimer_bounded_retry [of "\<lambda>url. True" up_at_second "''tok''" env_ok, THEN conjunct1]
  by (simp add: env_ok_def always_down_def up_at_second_def Let_def)

text \<open>
  C10. Called with sync configured and an engine that is not local, dispatch writes
  \<open>False\<close> into \<open>Core.Sync\<close> of the configuration with its first statement and changes
  no other field; the configuration stays so in every later state and throughout every
  later call that starts from it.
\<close>

theorem downgrade_writes_shared_config:
  assumes "Core_Sync c" and "\<not> IsLocalQueue (Queue_Engine c)"
    and "run env sched (init c req) = Some s"
  shows "cfg s = (if started s then c\<lparr>Core_Sync := False\<rparr> else c) \<and>
         (\<forall>sched' req' s'. started s \<longrightarrow> run env sched' (init (cfg s) req') = Some s' \<longrightarrow>
            cfg s' = c\<lparr>Core_Sync := False\<rparr>)"
proof -
  have d: "downgrade c = c\<lparr>Core_Sync := False\<rparr>"
    using assms(1,2) by (simp add: downgrade_def)
  have one: "cfg s = (if started s then c\<lparr>Core_Sync := False\<rparr> else c)"
    using run_cfg [OF assms(3)] d by (simp add: init_not_started init_cfg split: if_splits)
  have two: "cfg s' = c\<lparr>Core_Sync := False\<rparr>"
    if "started s" and "run env sched' (init (cfg s) req') = Some s'" for sched' req' s'
  proof -
    from that(1) one have e: "cfg s = c\<lparr>Core_Sync := False\<rparr>" by simp
    have "downgrade (c\<lparr>Core_Sync := False\<rparr>) = c\<lparr>Core_Sync := False\<rparr>"
      by (simp add: downgrade_def)
    with run_cfg [OF that(2)] e show ?thesis
      by (simp add: init_not_started init_cfg split: if_splits)
  qed
  from one two show ?thesis by blast
qed

theorem downgrade_writes_shared_config_witness:
  "Core_Sync cfg_remote \<and> \<not> IsLocalQueue (Queue_Engine cfg_remote) \<and>
   map_option cfg (run env_ok [Coord True] (init cfg_remote req_two)) =
     Some (cfg_remote\<lparr>Core_Sync := False\<rparr>)"
proof -
  have a: "Core_Sync cfg_remote" and b: "\<not> IsLocalQueue (Queue_Engine cfg_remote)"
    by (simp_all add: cfg_remote_def IsLocalQueue_def)
  obtain s where r: "run env_ok [Coord True] (init cfg_remote req_two) = Some s" and st: "started s"
    by (simp add: step_def coord_step_def init_def started_def)
  from downgrade_writes_shared_config [OF a b r, THEN conjunct1] st
  have "cfg s = cfg_remote\<lparr>Core_Sync := False\<rparr>" by simp
  with a b r show ?thesis by simp
qed

end
